theory Spec2Isabelle
  imports Main
begin

section \<open>JavaScript strings and the string methods the extension calls\<close>

text \<open>
  A path entry is a JavaScript string, modelled as a \<open>string\<close>: a list of code units, read
  here in the range below 256. The methods \<open>startsWith\<close>, \<open>endsWith\<close>, \<open>indexOf\<close>,
  \<open>lastIndexOf\<close> and \<open>join\<close> are the ones of \<open>String.prototype\<close> and
  \<open>Array.prototype\<close>, called with their default position arguments; \<open>indexOf\<close> and
  \<open>lastIndexOf\<close> return \<open>-1\<close> when the needle does not occur.
\<close>

definition startsWith :: "string \<Rightarrow> string \<Rightarrow> bool" where
  "startsWith s p = (take (length p) s = p)"

definition endsWith :: "string \<Rightarrow> string \<Rightarrow> bool" where
  "endsWith s p = (length p \<le> length s \<and> drop (length s - length p) s = p)"

fun indexOf :: "string \<Rightarrow> string \<Rightarrow> int" where
  "indexOf [] n = (if n = [] then 0 else -1)"
| "indexOf (x # xs) n =
     (if startsWith (x # xs) n then 0
      else (let i = indexOf xs n in if i < 0 then -1 else i + 1))"

fun lastIndexOf :: "string \<Rightarrow> string \<Rightarrow> int" where
  "lastIndexOf [] n = (if n = [] then 0 else -1)"
| "lastIndexOf (x # xs) n =
     (let i = lastIndexOf xs n
      in if i < 0 then (if startsWith (x # xs) n then 0 else -1) else i + 1)"

fun join :: "string list \<Rightarrow> string \<Rightarrow> string" where
  "join [] s = []"
| "join [x] s = x"
| "join (x # y # ys) s = x @ s @ join (y # ys) s"

section \<open>Constants\<close>

definition GAME_ID :: string where
  "GAME_ID = ''morrowind''"

text \<open>
  \<open>BAIN_FOLDER_PATTERN = /^\d{2}\s/\<close>. The class \<open>\d\<close> is the ten ASCII digits; the
  class \<open>\s\<close> is JavaScript's white space, which below 256 is TAB, LF, VT, FF, CR, SPACE
  and the no-break space. The pattern has no flags, so \<open>test\<close> keeps no state: it looks at
  the first three code units of its argument.
\<close>

definition isDigit :: "char \<Rightarrow> bool" where
  "isDigit c = (c \<in> set ''0123456789'')"

definition isWhiteSpace :: "char \<Rightarrow> bool" where
  "isWhiteSpace c =
     (c \<in> set [CHR 0x09, CHR 0x0A, CHR 0x0B, CHR 0x0C, CHR 0x0D, CHR 0x20, CHR 0xA0])"

fun BAIN_FOLDER_PATTERN_test :: "string \<Rightarrow> bool" where
  "BAIN_FOLDER_PATTERN_test (a # b # c # rest) = (isDigit a \<and> isDigit b \<and> isWhiteSpace c)"
| "BAIN_FOLDER_PATTERN_test _ = False"

section \<open>The path module\<close>

text \<open>
  \<open>path\<close> is Node's library module; its source is not part of the repository. It is
  modelled in its POSIX flavour, after Node's documentation: the separator \<open>path.sep\<close> is
  \<open>/\<close>, as in every path of the specification's scenarios.
\<close>

definition path_sep :: string where
  "path_sep = ''/''"

text \<open>
  \<open>path.basename(p)\<close> without a suffix argument: trailing separators are dropped, and
  what follows the last remaining separator is returned.
\<close>

definition path_basename :: "string \<Rightarrow> string" where
  "path_basename p =
     rev (takeWhile (\<lambda>c. c \<noteq> CHR ''/'') (dropWhile (\<lambda>c. c = CHR ''/'') (rev p)))"

text \<open>
  \<open>path.relative(from, to)\<close> resolves both arguments against the working directory of the
  process (an absolute path, here the parameter \<open>cwd\<close>), which normalises them: empty and
  \<open>.\<close> segments disappear, a \<open>..\<close> segment removes the segment before it (and is dropped
  at the root). The result climbs with one \<open>..\<close> for each segment of \<open>from\<close> beyond the
  common leading segments and then descends along the remaining segments of \<open>to\<close>. Node
  compares the two resolved strings code unit by code unit and cuts at the last common
  separator; on resolved paths this is the comparison of their segment lists below.
\<close>

fun splitPath :: "string \<Rightarrow> string list" where
  "splitPath [] = [[]]"
| "splitPath (c # cs) =
     (if c = CHR ''/'' then [] # splitPath cs
      else (case splitPath cs of [] \<Rightarrow> [[c]] | s # ss \<Rightarrow> (c # s) # ss))"

fun normalizeSegments :: "string list \<Rightarrow> string list \<Rightarrow> string list" where
  "normalizeSegments res [] = res"
| "normalizeSegments res (s # ss) =
     (if s = [] \<or> s = ''.'' then normalizeSegments res ss
      else if s = ''..'' then normalizeSegments (butlast res) ss
      else normalizeSegments (res @ [s]) ss)"

definition path_resolve :: "string \<Rightarrow> string \<Rightarrow> string list" where
  "path_resolve cwd p =
     (if p = [] then normalizeSegments [] (splitPath cwd)
      else if hd p = CHR ''/'' then normalizeSegments [] (splitPath p)
      else normalizeSegments [] (splitPath cwd @ splitPath p))"

fun commonLength :: "string list \<Rightarrow> string list \<Rightarrow> nat" where
  "commonLength (x # xs) (y # ys) = (if x = y then Suc (commonLength xs ys) else 0)"
| "commonLength _ _ = 0"

definition path_relative :: "string \<Rightarrow> string \<Rightarrow> string \<Rightarrow> string" where
  "path_relative cwd from to =
     (if from = to then []
      else (let f = path_resolve cwd from; t = path_resolve cwd to
            in if f = t then []
               else (let k = commonLength f t
                     in join (replicate (length f - k) ''..'' @ drop k t) ''/'')))"

section \<open>Helper functions\<close>

definition isDirectory :: "string \<Rightarrow> bool" where
  "isDirectory file = endsWith file path_sep"

definition isFile :: "string \<Rightarrow> bool" where
  "isFile file = (\<not> endsWith file path_sep)"

definition isTopLevel :: "string \<Rightarrow> bool" where
  "isTopLevel file = (indexOf file path_sep = lastIndexOf file path_sep)"

definition isTopLevelDirectory :: "string \<Rightarrow> bool" where
  "isTopLevelDirectory file = (isDirectory file \<and> isTopLevel file)"

definition isFileInSelectedFolder :: "string \<Rightarrow> string list \<Rightarrow> bool" where
  "isFileInSelectedFolder file selectedFolders =
     list_ex (\<lambda>folder. startsWith file folder) selectedFolders"

text \<open>
  Errors are values: what a \<open>throw\<close> throws or a promise rejects with. A JavaScript
  promise can reject with any value, so besides the objects (\<open>new util.UserCanceled(arg)\<close>
  with its constructor argument, a \<open>TypeError\<close>, and any other non-nullish value of the
  host, given by the text its \<open>message\<close> property yields in a template literal) the
  values \<open>undefined\<close> and \<open>null\<close> are errors too.
\<close>

datatype js_error =
  UserCanceled string | HostError string | TypeError string | JSUndefined | JSNull

text \<open>
  \<open>util\<close> is imported from \<open>vortex-api\<close>, whose source is not part of the repository:
  the message an instance of its class \<open>UserCanceled\<close> carries, given the constructor's
  argument, is a parameter.
\<close>

record vortex_util =
  UserCanceled_message :: "string \<Rightarrow> string"

text \<open>
  Reading \<open>error.message\<close>: on \<open>undefined\<close> and \<open>null\<close> the property access throws a
  \<open>TypeError\<close>.
\<close>

fun message :: "vortex_util \<Rightarrow> js_error \<Rightarrow> js_error + string" where
  "message util (UserCanceled arg) = Inr (UserCanceled_message util arg)"
| "message util (HostError m) = Inr m"
| "message util (TypeError m) = Inr m"
| "message util JSUndefined =
     Inl (TypeError ''Cannot read properties of undefined (reading message)'')"
| "message util JSNull =
     Inl (TypeError ''Cannot read properties of null (reading message)'')"

text \<open>
  \<open>find\<close> returns \<open>undefined\<close> when no selected folder is a prefix of the file, and
  \<open>path.relative\<close> then throws a \<open>TypeError\<close> on its first argument.
\<close>

definition getRelativePath :: "string \<Rightarrow> string \<Rightarrow> string list \<Rightarrow> js_error + string" where
  "getRelativePath cwd file selectedFolders =
     (case find (\<lambda>folder. startsWith file folder) selectedFolders of
        None \<Rightarrow> Inl (TypeError ''The \"from\" argument must be of type string. Received undefined'')
      | Some bainFolder \<Rightarrow> Inr (path_relative cwd bainFolder file))"

section \<open>Core functions\<close>

definition getBainFolders :: "string list \<Rightarrow> string list" where
  "getBainFolders files =
     filter (\<lambda>file. isTopLevelDirectory file \<and> BAIN_FOLDER_PATTERN_test file) files"

text \<open>
  The detector returns \<open>Promise.resolve(...)\<close>: a promise is modelled by its outcome,
  \<open>Inr\<close> the value it resolves to and \<open>Inl\<close> the error it rejects with.
\<close>

record test_result =
  supported :: bool
  requiredFiles :: "string list"

definition testSupportedContent :: "string list \<Rightarrow> string \<Rightarrow> js_error + test_result" where
  "testSupportedContent files gameId =
     (let supported = (gameId = GAME_ID \<and> length (getBainFolders files) > 0)
      in Inr \<lparr>supported = supported, requiredFiles = []\<rparr>)"

section \<open>Main installer logic\<close>

text \<open>
  The request handed to the host's \<open>showDialog\<close>: its type, its title, the content (a text
  and the checkboxes) and the actions. The \<open>default\<close> property of an action is absent
  (\<open>None\<close>) unless the source writes it.
\<close>

record checkbox =
  cb_id :: string
  cb_text :: string
  cb_value :: bool

record dialog_action =
  label :: string
  default_action :: "bool option"

record dialog_request =
  dialog_type :: string
  dialog_title :: string
  dialog_text :: string
  checkboxes :: "checkbox list"
  actions :: "dialog_action list"

text \<open>
  The host's answer: the label of the chosen action and the object \<open>input\<close>, given by its
  entries (key and value) in the order \<open>Object.entries\<close> and \<open>Object.values\<close> enumerate
  them. The host's promise resolves with such a result or rejects with an error.
\<close>

record dialog_result =
  action :: string
  input :: "(string \<times> bool) list"

record host_context =
  showDialog :: "dialog_request \<Rightarrow> js_error + dialog_result"

definition dialogRequest :: "string list \<Rightarrow> dialog_request" where
  "dialogRequest bainFolders =
     \<lparr>dialog_type = ''question'',
      dialog_title = ''Choose BAIN Options'',
      dialog_text = ''Choose the folders you want to install:'',
      checkboxes =
        map (\<lambda>(folder, index).
               \<lparr>cb_id = folder, cb_text = path_basename folder, cb_value = (index = 0)\<rparr>)
          (zip bainFolders [0 ..< length bainFolders]),
      actions =
        [\<lparr>label = ''Cancel'', default_action = None\<rparr>,
         \<lparr>label = ''Continue'', default_action = Some True\<rparr>]\<rparr>"

definition showFolderSelectionDialog :: "string list \<Rightarrow> host_context \<Rightarrow> js_error + string list" where
  "showFolderSelectionDialog bainFolders context =
     (case showDialog context (dialogRequest bainFolders) of
        Inl error \<Rightarrow> Inl error
      | Inr result \<Rightarrow>
          if action result = ''Cancel'' \<or> \<not> list_ex (\<lambda>value. value) (map snd (input result))
          then Inl (UserCanceled ''No folders selected or action canceled.'')
          else Inr (map fst (filter (\<lambda>(key, value). value) (input result))))"

text \<open>
  A copy instruction, and what \<open>installContent\<close> resolves to: the empty array of the
  early exit, or the object holding the instructions.
\<close>

record instruction =
  instr_type :: string
  source :: string
  destination :: string

datatype install_result = EmptyArray | Instructions "instruction list"

text \<open>
  The calls of \<open>log\<close> are collected in order. A message is the text of the template
  literal; the last one embeds \<open>JSON.stringify(instructions, null, 2)\<close>, kept here as the
  value it serialises. An error thrown inside the \<open>catch\<close> block, where the message of
  the caught error is read, leaves \<open>installContent\<close> as the rejection of its promise.
\<close>

datatype log_level = Debug | Error

datatype log_message = Text string | TextJSON string "instruction list"

fun mapResult :: "('a \<Rightarrow> js_error + 'b) \<Rightarrow> 'a list \<Rightarrow> js_error + 'b list" where
  "mapResult f [] = Inr []"
| "mapResult f (x # xs) =
     (case f x of
        Inl e \<Rightarrow> Inl e
      | Inr y \<Rightarrow> (case mapResult f xs of Inl e \<Rightarrow> Inl e | Inr ys \<Rightarrow> Inr (y # ys)))"

definition installContent ::
  "vortex_util \<Rightarrow> string \<Rightarrow> string list \<Rightarrow> host_context
     \<Rightarrow> (log_level \<times> log_message) list \<times> (js_error + install_result)" where
  "installContent util cwd files context =
     (let bainFolders = getBainFolders files;
          log1 = [(Debug, Text (''BAIN folders: '' @ join bainFolders '', ''))]
      in case showFolderSelectionDialog bainFolders context of
           Inl error \<Rightarrow>
             (case message util error of
                Inl thrown \<Rightarrow> (log1, Inl thrown)
              | Inr m \<Rightarrow> (log1 @ [(Error, Text (''Dialog error: '' @ m))], Inr EmptyArray))
         | Inr selectedFolders \<Rightarrow>
             (let log2 = log1 @
                    [(Debug, Text (''Selected folders: '' @ join selectedFolders '', ''))];
                  filtered =
                    filter (\<lambda>file. isFile file \<and> isFileInSelectedFolder file selectedFolders)
                      files;
                  log3 = log2 @ [(Debug, Text (''Filtered files: '' @ join filtered '', ''))]
              in case mapResult
                        (\<lambda>file. case getRelativePath cwd file selectedFolders of
                                   Inl e \<Rightarrow> Inl e
                                 | Inr d \<Rightarrow>
                                     Inr \<lparr>instr_type = ''copy'', source = file,
                                          destination = d\<rparr>)
                        filtered of
                   Inl e \<Rightarrow> (log3, Inl e)
                 | Inr instructions \<Rightarrow>
                     (log3 @ [(Debug, TextJSON ''Generated instructions: '' instructions)],
                      Inr (Instructions instructions))))"

section \<open>The specification's predicates and scenarios\<close>

text \<open>
  The BAIN folder predicate as the specification words it: a directory, top-level, whose
  basename matches the pattern. (The source tests the pattern on the entry itself.)
\<close>

definition isBainFolder :: "string \<Rightarrow> bool" where
  "isBainFolder entry =
     (isDirectory entry \<and> isTopLevel entry \<and> BAIN_FOLDER_PATTERN_test (path_basename entry))"

text \<open>
  The two phrasings the specification gives for a top-level entry: at most one separator
  occurrence which, when the entry is a directory, is the trailing one (exactly one
  separator in total, located at the end); and no separator before the final character.
\<close>

definition separatorCount :: "string \<Rightarrow> nat" where
  "separatorCount entry = count_list entry (CHR ''/'')"

definition atMostOneSeparator :: "string \<Rightarrow> bool" where
  "atMostOneSeparator entry =
     (separatorCount entry \<le> 1 \<and>
      (isDirectory entry \<longrightarrow> separatorCount entry = 1 \<and> last entry = CHR ''/''))"

definition noSeparatorBeforeFinal :: "string \<Rightarrow> bool" where
  "noSeparatorBeforeFinal entry = (CHR ''/'' \<notin> set (butlast entry))"

text \<open>
  What is left of a file's path after a leading folder, cut into segments, and its
  normal form: the segments that are neither empty nor \<open>.\<close>.
\<close>

definition remainder :: "string \<Rightarrow> string \<Rightarrow> string list" where
  "remainder folder file = splitPath (drop (length folder) file)"

definition properSegments :: "string list \<Rightarrow> string list" where
  "properSegments segments = filter (\<lambda>s. s \<noteq> [] \<and> s \<noteq> ''.'') segments"

text \<open>
  A host answers a request about its checkboxes when the keys of the \<open>input\<close> it resolves
  with are identifiers of checkboxes of the request, or when it rejects with an error
  other than \<open>undefined\<close> and \<open>null\<close>.
\<close>

definition answersCheckboxes :: "host_context \<Rightarrow> dialog_request \<Rightarrow> bool" where
  "answersCheckboxes context request =
     (case showDialog context request of
        Inl error \<Rightarrow> error \<noteq> JSUndefined \<and> error \<noteq> JSNull
      | Inr result \<Rightarrow> list_all (\<lambda>key. key \<in> set (map cb_id (checkboxes request)))
                       (map fst (input result)))"

text \<open>
  The listing of the specification's scenarios, and three hosts: a user who ticks only
  the given folders and continues, a user who cancels, and a dialog that rejects with the
  given error. The last value is a \<open>util\<close> whose \<open>UserCanceled\<close> keeps its argument as its
  message.
\<close>

definition scenario_listing :: "string list" where
  "scenario_listing =
     [''00 Core/'', ''00 Core/plugin.esp'', ''01 Optional/'', ''01 Optional/readme.txt'']"

definition selecting_context :: "string list \<Rightarrow> host_context" where
  "selecting_context ticked =
     \<lparr>showDialog = (\<lambda>request.
        Inr \<lparr>action = ''Continue'',
             input = map (\<lambda>c. (cb_id c, cb_id c \<in> set ticked)) (checkboxes request)\<rparr>)\<rparr>"

definition cancelling_context :: host_context where
  "cancelling_context =
     \<lparr>showDialog = (\<lambda>request.
        Inr \<lparr>action = ''Cancel'',
             input = map (\<lambda>c. (cb_id c, cb_value c)) (checkboxes request)\<rparr>)\<rparr>"

definition rejecting_context :: "js_error \<Rightarrow> host_context" where
  "rejecting_context error = \<lparr>showDialog = (\<lambda>request. Inl error)\<rparr>"

definition sample_util :: vortex_util where
  "sample_util = \<lparr>UserCanceled_message = (\<lambda>arg. arg)\<rparr>"

section \<open>Properties of the helper functions\<close>

lemma startsWith_Cons_singleton: "startsWith (x # xs) [c] = (x = c)"
  by (simp add: startsWith_def)

lemma indexOf_singleton_neg: "(indexOf s [c] < 0) = (c \<notin> set s)"
  by (induction s) (auto simp add: startsWith_Cons_singleton Let_def)

lemma lastIndexOf_singleton_neg: "(lastIndexOf s [c] < 0) = (c \<notin> set s)"
  by (induction s) (auto simp add: startsWith_Cons_singleton Let_def)

lemma lastIndexOf_singleton_ge: "lastIndexOf s [c] \<ge> -1"
  by (induction s) (auto simp add: startsWith_Cons_singleton Let_def)

lemma count_list_0: "(count_list s c = 0) = (c \<notin> set s)"
  by (induction s) auto

lemma indexOf_eq_lastIndexOf:
  "(indexOf s [c] = lastIndexOf s [c]) = (count_list s c \<le> 1)"
proof (induction s)
  case Nil
  then show ?case by simp
next
  case (Cons x xs)
  show ?case
  proof (cases "x = c")
    case True
    have "(0 = lastIndexOf (x # xs) [c]) = (c \<notin> set xs)"
      using lastIndexOf_singleton_neg [of xs c] lastIndexOf_singleton_ge [of xs c] True
      by (auto simp add: Let_def startsWith_Cons_singleton)
    then show ?thesis using True
      by (simp add: startsWith_Cons_singleton count_list_0)
  next
    case False
    show ?thesis
    proof (cases "c \<in> set xs")
      case True
      then have "\<not> indexOf xs [c] < 0" "\<not> lastIndexOf xs [c] < 0"
        by (simp_all add: indexOf_singleton_neg lastIndexOf_singleton_neg)
      then show ?thesis using False Cons.IH
        by (simp add: startsWith_Cons_singleton Let_def)
    next
      case notin: False
      then have "indexOf xs [c] < 0" "lastIndexOf xs [c] < 0" "count_list xs c = 0"
        by (simp_all add: indexOf_singleton_neg lastIndexOf_singleton_neg count_list_0)
      then show ?thesis using False
        by (simp add: startsWith_Cons_singleton Let_def)
    qed
  qed
qed

lemma isTopLevel_count: "isTopLevel e = (count_list e (CHR ''/'') \<le> 1)"
  by (simp add: isTopLevel_def path_sep_def indexOf_eq_lastIndexOf)

lemma endsWith_singleton: "endsWith s [c] = (s \<noteq> [] \<and> last s = c)"
proof (cases s rule: rev_cases)
  case Nil
  then show ?thesis by (simp add: endsWith_def)
next
  case (snoc ys y)
  then show ?thesis by (auto simp add: endsWith_def)
qed

lemma isDirectory_last: "isDirectory e = (e \<noteq> [] \<and> last e = CHR ''/'')"
  by (simp add: isDirectory_def path_sep_def endsWith_singleton)

lemma count_list_pos: "(c \<in> set s) = (0 < count_list s c)"
  by (induction s) auto

lemma count_list_snoc: "count_list (xs @ [y]) c = count_list xs c + (if y = c then 1 else 0)"
  by (induction xs) auto

lemma isTopLevelDirectory_iff:
  "isTopLevelDirectory d = (\<exists>n. d = n @ ''/'' \<and> CHR ''/'' \<notin> set n)"
proof (cases d rule: rev_cases)
  case Nil
  then show ?thesis by (simp add: isTopLevelDirectory_def isDirectory_last)
next
  case (snoc n y)
  then show ?thesis
    by (auto simp add: isTopLevelDirectory_def isDirectory_last isTopLevel_count
        count_list_snoc count_list_0)
qed

lemma topLevelDirectory_prefix_unique:
  assumes "isTopLevelDirectory d1" "isTopLevelDirectory d2"
    and "startsWith f d1" "startsWith f d2"
  shows "d1 = d2"
proof -
  obtain n1 n2 where d1: "d1 = n1 @ ''/''" "CHR ''/'' \<notin> set n1"
    and d2: "d2 = n2 @ ''/''" "CHR ''/'' \<notin> set n2"
    using assms(1,2) by (auto simp add: isTopLevelDirectory_iff)
  have p1: "take (length d1) f = d1" and p2: "take (length d2) f = d2"
    using assms(3,4) by (simp_all add: startsWith_def)
  have less: "False" if "length a < length b" "take (length (a @ ''/'')) f = a @ ''/''"
    "take (length (b @ ''/'')) f = b @ ''/''" "CHR ''/'' \<notin> set b" for a b
  proof -
    have "take (Suc (length a)) (take (Suc (length b)) f) = take (Suc (length a)) f"
      using that(1) by (simp add: min_def)
    moreover have "take (Suc (length a)) f = a @ ''/''" "take (Suc (length b)) f = b @ ''/''"
      using that(2,3) by simp_all
    ultimately have "take (Suc (length a)) (b @ ''/'') = a @ ''/''"
      by simp
    then have "take (Suc (length a)) b = a @ ''/''"
      using that(1) by simp
    then have "CHR ''/'' \<in> set (take (Suc (length a)) b)" by simp
    then show False using that(4) by (meson in_set_takeD)
  qed
  have "length n1 = length n2"
    using less [of n1 n2] less [of n2 n1] p1 p2 d1 d2 by (meson linorder_neqE_nat)
  then have "d1 = take (length d1) f" "d2 = take (length d1) f"
    using p1 p2 d1 d2 by simp_all
  then show ?thesis by simp
qed

lemma basename_topLevelDirectory:
  assumes "CHR ''/'' \<notin> set n"
  shows "path_basename (n @ ''/'') = n"
proof -
  have a: "dropWhile (\<lambda>c. c = CHR ''/'') (rev n) = rev n"
    using assms by (cases "rev n") auto
  have b: "takeWhile (\<lambda>c. c \<noteq> CHR ''/'') (rev n) = rev n"
    using assms by auto
  show ?thesis by (simp add: path_basename_def a b)
qed

lemma separator_not_whitespace: "\<not> isWhiteSpace (CHR ''/'')"
  by (simp add: isWhiteSpace_def)

lemma pattern_topLevelDirectory:
  "BAIN_FOLDER_PATTERN_test (n @ ''/'') = BAIN_FOLDER_PATTERN_test n"
proof (cases n)
  case Nil
  then show ?thesis by simp
next
  case c1: (Cons a n1)
  show ?thesis
  proof (cases n1)
    case Nil
    then show ?thesis using c1 by simp
  next
    case c2: (Cons b n2)
    show ?thesis
    proof (cases n2)
      case Nil
      then show ?thesis using c1 c2 by (simp add: separator_not_whitespace)
    next
      case (Cons c n3)
      then show ?thesis using c1 c2 by simp
    qed
  qed
qed


lemma pattern_basename:
  assumes "isTopLevelDirectory e"
  shows "BAIN_FOLDER_PATTERN_test (path_basename e) = BAIN_FOLDER_PATTERN_test e"
proof -
  obtain n where "e = n @ ''/''" "CHR ''/'' \<notin> set n"
    using assms by (auto simp add: isTopLevelDirectory_iff)
  then show ?thesis
    by (simp add: basename_topLevelDirectory pattern_topLevelDirectory)
qed

text \<open>
  Claim C4. For every listing, \<open>getBainFolders\<close> returns the entries that are directories,
  are top-level and whose basename matches \<open>/^\d{2}\s/\<close>, in the listing's order and with
  its duplicates: the listing filtered by the specification's predicate. The source tests
  the pattern on the whole entry; on a top-level directory that is the test on its
  basename, because the trailing separator is neither a digit nor white space.
\<close>

theorem C4_getBainFolders_filter:
  "getBainFolders L = filter isBainFolder L"
proof -
  have "(isTopLevelDirectory e \<and> BAIN_FOLDER_PATTERN_test e) = isBainFolder e" for e
    using pattern_basename [of e]
    by (auto simp add: isBainFolder_def isTopLevelDirectory_def)
  then show ?thesis by (simp add: getBainFolders_def)
qed

lemma find_startsWith_unique:
  assumes "\<forall>d\<in>set S. isTopLevelDirectory d" "d \<in> set S" "startsWith f d"
  shows "find (\<lambda>folder. startsWith f folder) S = Some d"
proof (cases "find (\<lambda>folder. startsWith f folder) S")
  case None
  then show ?thesis using assms(2,3) by (auto simp add: find_None_iff)
next
  case (Some d')
  then have "d' \<in> set S" "startsWith f d'"
    by (auto simp add: find_Some_iff)
  then have "d' = d"
    using topLevelDirectory_prefix_unique [of d' d f] assms by blast
  then show ?thesis using Some by simp
qed

text \<open>
  Claim C9. Every BAIN folder is a top-level directory entry. Two top-level directory
  entries that are both prefixes of one file path are equal, so among distinct top-level
  directories at most one is a prefix of the path.
  Hence, for a selection of top-level directories, \<open>getRelativePath\<close> makes the file
  relative to the one selected folder that contains it, and a selection with the same
  folders in another order gives the same destination.
\<close>

theorem C9_containing_folder_unique:
  "(b \<in> set (getBainFolders L) \<longrightarrow> isTopLevelDirectory b)
   \<and> (isTopLevelDirectory d1 \<and> isTopLevelDirectory d2 \<and> startsWith f d1 \<and> startsWith f d2
      \<longrightarrow> d1 = d2)
   \<and> ((\<forall>d\<in>set S. isTopLevelDirectory d) \<and> d \<in> set S \<and> startsWith f d
      \<longrightarrow> getRelativePath cwd f S = Inr (path_relative cwd d f))
   \<and> ((\<forall>d\<in>set S. isTopLevelDirectory d) \<and> set S' = set S
      \<longrightarrow> getRelativePath cwd f S' = getRelativePath cwd f S)"
proof (intro conjI impI)
  assume "b \<in> set (getBainFolders L)"
  then show "isTopLevelDirectory b" by (simp add: getBainFolders_def)
next
  assume "isTopLevelDirectory d1 \<and> isTopLevelDirectory d2 \<and> startsWith f d1 \<and> startsWith f d2"
  then show "d1 = d2" using topLevelDirectory_prefix_unique by blast
next
  assume "(\<forall>d\<in>set S. isTopLevelDirectory d) \<and> d \<in> set S \<and> startsWith f d"
  then show "getRelativePath cwd f S = Inr (path_relative cwd d f)"
    using find_startsWith_unique [of S d f] by (simp add: getRelativePath_def)
next
  assume a: "(\<forall>d\<in>set S. isTopLevelDirectory d) \<and> set S' = set S"
  show "getRelativePath cwd f S' = getRelativePath cwd f S"
  proof (cases "\<exists>d\<in>set S. startsWith f d")
    case True
    then obtain d where d: "d \<in> set S" "startsWith f d" by blast
    have "find (\<lambda>folder. startsWith f folder) S = Some d"
      using a d find_startsWith_unique [of S d f] by simp
    moreover have "find (\<lambda>folder. startsWith f folder) S' = Some d"
      using a d find_startsWith_unique [of S' d f] by simp
    ultimately show ?thesis by (simp add: getRelativePath_def)
  next
    case False
    then have "find (\<lambda>folder. startsWith f folder) S = None"
      "find (\<lambda>folder. startsWith f folder) S' = None"
      using a by (auto simp add: find_None_iff)
    then show ?thesis by (simp add: getRelativePath_def)
  qed
qed

lemma topLevelDirectory_examples:
  "isTopLevelDirectory ''00 Core/''" "isTopLevelDirectory ''01 Optional/''"
  by (simp_all add: isTopLevelDirectory_def isDirectory_def isTopLevel_def path_sep_def
      endsWith_def startsWith_def)

text \<open>
  The claim at the file \<open>00 Core/plugin.esp\<close> and the folders \<open>00 Core/\<close> and
  \<open>01 Optional/\<close>, selected in either order.
\<close>

theorem C9_containing_folder_unique_witness:
  "''00 Core/'' \<in> set (getBainFolders scenario_listing)
   \<and> isTopLevelDirectory ''00 Core/'' \<and> startsWith ''00 Core/plugin.esp'' ''00 Core/''
   \<and> list_all isTopLevelDirectory [''00 Core/'', ''01 Optional/'']
   \<and> set [''01 Optional/'', ''00 Core/''] = set [''00 Core/'', ''01 Optional/'']
   \<and> getRelativePath ''/home/user'' ''00 Core/plugin.esp'' [''00 Core/'', ''01 Optional/'']
       = Inr (path_relative ''/home/user'' ''00 Core/'' ''00 Core/plugin.esp'')
   \<and> getRelativePath ''/home/user'' ''00 Core/plugin.esp'' [''01 Optional/'', ''00 Core/'']
       = getRelativePath ''/home/user'' ''00 Core/plugin.esp'' [''00 Core/'', ''01 Optional/'']"
proof -
  have b: "''00 Core/'' \<in> set (getBainFolders scenario_listing)"
    by code_simp
  have t: "isTopLevelDirectory ''00 Core/''"
    using C9_containing_folder_unique [where b = "''00 Core/''" and L = scenario_listing] b
    by simp
  have s: "startsWith ''00 Core/plugin.esp'' ''00 Core/''"
    by (simp add: startsWith_def)
  have e: "set [''01 Optional/'', ''00 Core/''] = set [''00 Core/'', ''01 Optional/'']"
    by auto
  show ?thesis
    using C9_containing_folder_unique [where ?d1.0 = "''00 Core/''" and ?d2.0 = "''00 Core/''"
        and f = "''00 Core/plugin.esp''" and S = "[''00 Core/'', ''01 Optional/'']"
        and d = "''00 Core/''" and cwd = "''/home/user''"
        and S' = "[''01 Optional/'', ''00 Core/'']"]
      topLevelDirectory_examples b t s e
    by simp
qed

lemma isTopLevel_atMostOneSeparator: "isTopLevel e = atMostOneSeparator e"
proof (cases e rule: rev_cases)
  case Nil
  then show ?thesis
    by (simp add: isTopLevel_count atMostOneSeparator_def separatorCount_def isDirectory_last)
next
  case (snoc n y)
  then show ?thesis
    by (auto simp add: isTopLevel_count atMostOneSeparator_def separatorCount_def
        isDirectory_last count_list_snoc)
qed

text \<open>
  Claim C5, amended. For every entry, \<open>isTopLevel\<close> holds exactly when the entry has at
  most one separator occurrence which, for a directory, is the trailing one. That agrees
  with "no separator before the final character" exactly on the entries that are
  directories or do not have exactly one separator: the two phrasings differ on a
  non-directory entry with one separator.
\<close>

theorem C5_isTopLevel_phrasings:
  "isTopLevel e = atMostOneSeparator e
   \<and> (isTopLevel e = noSeparatorBeforeFinal e) = (isDirectory e \<or> separatorCount e \<noteq> 1)"
proof (cases e rule: rev_cases)
  case Nil
  then show ?thesis
    by (simp add: isTopLevel_atMostOneSeparator [symmetric] isTopLevel_count
        noSeparatorBeforeFinal_def separatorCount_def isDirectory_last)
next
  case (snoc n y)
  then show ?thesis
    by (auto simp add: isTopLevel_atMostOneSeparator [symmetric] isTopLevel_count
        noSeparatorBeforeFinal_def separatorCount_def isDirectory_last count_list_snoc
        count_list_pos)
qed

text \<open>
  The entry \<open>a/b\<close>: \<open>isTopLevel\<close> and the first phrasing hold, the second phrasing does
  not.
\<close>

theorem C5_isTopLevel_file_counterexample:
  "isTopLevel ''a/b'' \<and> atMostOneSeparator ''a/b'' \<and> \<not> noSeparatorBeforeFinal ''a/b''"
  by (simp add: isTopLevel_def path_sep_def startsWith_def atMostOneSeparator_def
      separatorCount_def isDirectory_def endsWith_def noSeparatorBeforeFinal_def)

text \<open>The amended claim at the directory \<open>00 Core/\<close>.\<close>

theorem C5_isTopLevel_phrasings_witness:
  "isDirectory ''00 Core/'' \<and> isTopLevel ''00 Core/'' \<and> atMostOneSeparator ''00 Core/''
   \<and> noSeparatorBeforeFinal ''00 Core/''"
  using C5_isTopLevel_phrasings [of "''00 Core/''"]
  by (auto simp add: isDirectory_def path_sep_def endsWith_def noSeparatorBeforeFinal_def
      separatorCount_def)

text \<open>
  Claim C7. For every path entry, \<open>isDirectory\<close> is the negation of \<open>isFile\<close>, and it holds
  exactly when the entry ends with the separator.
\<close>

theorem C7_isDirectory_complement:
  "isDirectory p = (\<not> isFile p) \<and> isDirectory p = (p \<noteq> [] \<and> last p = CHR ''/'')"
  by (simp add: isDirectory_def isFile_def path_sep_def endsWith_singleton)

text \<open>
  Claim C1. For every listing and every game identifier, \<open>testSupportedContent\<close> resolves:
  \<open>supported\<close> is true exactly when the identifier is \<open>morrowind\<close> and \<open>getBainFolders\<close>
  of the listing is not empty, and \<open>requiredFiles\<close> is empty. Being a function of the
  listing and the identifier alone, the result is determined by them.
\<close>

theorem C1_testSupportedContent:
  "testSupportedContent L g =
     Inr \<lparr>supported = (g = ''morrowind'' \<and> getBainFolders L \<noteq> []), requiredFiles = []\<rparr>"
  by (simp add: testSupportedContent_def GAME_ID_def)

lemma splitPath_not_Nil: "splitPath s \<noteq> []"
  by (induction s) (auto split: list.splits)

lemma splitPath_append_separator:
  "splitPath (a @ CHR ''/'' # b) = splitPath a @ splitPath b"
proof (induction a)
  case Nil
  then show ?case by simp
next
  case (Cons c a)
  then show ?case
    using splitPath_not_Nil [of a] by (cases "splitPath a") auto
qed

lemma splitPath_no_separator: "CHR ''/'' \<notin> set n \<Longrightarrow> splitPath n = [n]"
  by (induction n) auto

lemma join_splitPath: "join (splitPath s) ''/'' = s"
proof (induction s)
  case Nil
  then show ?case by simp
next
  case (Cons c s)
  obtain x xs where x: "splitPath s = x # xs"
    using splitPath_not_Nil [of s] by (cases "splitPath s") auto
  show ?case
  proof (cases "c = CHR ''/''")
    case True
    then show ?thesis using Cons x by simp
  next
    case False
    then show ?thesis using Cons x by (cases xs) auto
  qed
qed

lemma normalizeSegments_append:
  "normalizeSegments res (a @ b) = normalizeSegments (normalizeSegments res a) b"
  by (induction a arbitrary: res) auto

lemma normalizeSegments_descend:
  "''..'' \<notin> set ss \<Longrightarrow> normalizeSegments res ss = res @ properSegments ss"
  by (induction ss arbitrary: res) (auto simp add: properSegments_def)

lemma commonLength_append: "commonLength f (f @ r) = length f"
  by (induction f) auto


lemma hd_folder:
  assumes "CHR ''/'' \<notin> set n" "n \<noteq> []"
  shows "hd (n @ r) \<noteq> CHR ''/''"
  using assms by (cases n) auto

lemma path_resolve_relative:
  assumes "p \<noteq> []" "hd p \<noteq> CHR ''/''"
  shows "path_resolve cwd p =
           normalizeSegments (normalizeSegments [] (splitPath cwd)) (splitPath p)"
  using assms by (simp add: path_resolve_def normalizeSegments_append)

lemma normalizeSegments_name:
  assumes "n \<noteq> []" "n \<noteq> ''.''" "n \<noteq> ''..''"
  shows "normalizeSegments c (n # ss) = normalizeSegments (c @ [n]) ss"
  using assms by simp

lemma path_relative_prefix:
  assumes "from \<noteq> to \<longrightarrow> path_resolve cwd to = path_resolve cwd from @ rest"
    and "from = to \<longrightarrow> rest = []"
  shows "path_relative cwd from to = join rest ''/''"
proof (cases "from = to")
  case True
  then show ?thesis using assms(2) by (simp add: path_relative_def)
next
  case False
  then have t: "path_resolve cwd to = path_resolve cwd from @ rest"
    using assms(1) by simp
  show ?thesis
  proof (cases "rest = []")
    case True
    then show ?thesis using t by (simp add: path_relative_def)
  next
    case False
    then show ?thesis
      using t \<open>from \<noteq> to\<close> by (simp add: path_relative_def commonLength_append Let_def)
  qed
qed


lemma splitPath_folder:
  assumes "CHR ''/'' \<notin> set n"
  shows "splitPath (n @ CHR ''/'' # r) = n # splitPath r"
  using splitPath_append_separator [of n r] assms by (simp add: splitPath_no_separator)

lemma path_resolve_folder:
  assumes "CHR ''/'' \<notin> set n" "n \<noteq> []" "n \<noteq> ''.''" "n \<noteq> ''..''"
  shows "path_resolve cwd (n @ CHR ''/'' # r) =
           normalizeSegments (normalizeSegments [] (splitPath cwd) @ [n]) (splitPath r)"
proof -
  have "hd (n @ CHR ''/'' # r) \<noteq> CHR ''/''"
    using hd_folder assms(1,2) by blast
  then have "path_resolve cwd (n @ CHR ''/'' # r) =
      normalizeSegments (normalizeSegments [] (splitPath cwd)) (n # splitPath r)"
    using path_resolve_relative [of "n @ CHR ''/'' # r" cwd] assms(1)
    by (simp add: splitPath_folder)
  then show ?thesis
    using normalizeSegments_name [OF assms(2,3,4)] by simp
qed

lemma path_relative_under_folder:
  assumes n: "CHR ''/'' \<notin> set n" "n \<noteq> []" "n \<noteq> ''.''" "n \<noteq> ''..''"
    and r: "''..'' \<notin> set (splitPath r)"
  shows "path_relative cwd (n @ ''/'') (n @ ''/'' @ r) = join (properSegments (splitPath r)) ''/''"
proof (rule path_relative_prefix)
  let ?c = "normalizeSegments [] (splitPath cwd)"
  have rf: "path_resolve cwd (n @ ''/'') = ?c @ [n]"
    using path_resolve_folder [OF n, of cwd "[]"] by simp
  have rt: "path_resolve cwd (n @ ''/'' @ r) = (?c @ [n]) @ properSegments (splitPath r)"
    using path_resolve_folder [OF n, of cwd r] r
      normalizeSegments_descend [of "splitPath r" "?c @ [n]"] by simp
  show "n @ ''/'' \<noteq> n @ ''/'' @ r \<longrightarrow>
        path_resolve cwd (n @ ''/'' @ r) =
          path_resolve cwd (n @ ''/'') @ properSegments (splitPath r)"
    using rf rt by simp
  show "n @ ''/'' = n @ ''/'' @ r \<longrightarrow> properSegments (splitPath r) = []"
    by (simp add: properSegments_def)
qed

lemma pattern_name:
  assumes "BAIN_FOLDER_PATTERN_test (n @ ''/'')"
  shows "n \<noteq> [] \<and> n \<noteq> ''.'' \<and> n \<noteq> ''..''"
  using assms by (auto simp add: isDigit_def)


lemma startsWith_append: "startsWith f d \<Longrightarrow> f = d @ drop (length d) f"
  by (metis append_take_drop_id startsWith_def)

lemma destination_under_folder:
  assumes "isTopLevelDirectory d" "BAIN_FOLDER_PATTERN_test d" "startsWith f d"
    and "''..'' \<notin> set (remainder d f)"
  shows "path_relative cwd d f = join (properSegments (remainder d f)) ''/''"
proof -
  obtain n where d: "d = n @ ''/''" "CHR ''/'' \<notin> set n"
    using assms(1) by (auto simp add: isTopLevelDirectory_iff)
  have n: "n \<noteq> []" "n \<noteq> ''.''" "n \<noteq> ''..''"
    using pattern_name [of n] assms(2) d(1) by simp_all
  have f: "f = n @ ''/'' @ drop (length d) f"
    using startsWith_append [OF assms(3)] d(1) by simp
  have "path_relative cwd (n @ ''/'') (n @ ''/'' @ drop (length d) f) =
      join (properSegments (splitPath (drop (length d) f))) ''/''"
    using path_relative_under_folder [OF d(2) n, of "drop (length d) f" cwd] assms(4)
    by (simp add: remainder_def)
  then show ?thesis using f d(1) by (simp add: remainder_def)
qed

lemma properSegments_id:
  "list_all (\<lambda>s. s \<noteq> [] \<and> s \<noteq> ''.'') ss \<Longrightarrow> properSegments ss = ss"
  by (induction ss) (auto simp add: properSegments_def)

lemma bain_folder_topLevel: "d \<in> set (getBainFolders L) \<Longrightarrow> isTopLevelDirectory d"
  by (simp add: getBainFolders_def)

lemma bain_folder_pattern: "d \<in> set (getBainFolders L) \<Longrightarrow> BAIN_FOLDER_PATTERN_test d"
  by (simp add: getBainFolders_def)

text \<open>
  Claim C6, amended. For a file whose path starts with a selected BAIN folder and whose
  remainder after that folder has no \<open>..\<close> segment, the destination is the remainder
  with its empty and \<open>.\<close> segments dropped, joined by the separator; when the remainder
  has no such segment the destination is the remainder itself. The leading folder is
  removed once, and what lies below it is kept, whatever its name.
\<close>

theorem C6_destination_strips_folder:
  assumes "set S \<subseteq> set (getBainFolders L)" and "d \<in> set S" and "startsWith f d"
    and "''..'' \<notin> set (remainder d f)"
  shows "getRelativePath cwd f S = Inr (join (properSegments (remainder d f)) ''/'')
    \<and> (list_all (\<lambda>s. s \<noteq> [] \<and> s \<noteq> ''.'') (remainder d f)
         \<longrightarrow> getRelativePath cwd f S = Inr (drop (length d) f))"
proof -
  have top: "\<forall>d\<in>set S. isTopLevelDirectory d"
    using assms(1) bain_folder_topLevel by blast
  have "find (\<lambda>folder. startsWith f folder) S = Some d"
    using find_startsWith_unique [OF top assms(2,3)] .
  then have g: "getRelativePath cwd f S = Inr (path_relative cwd d f)"
    by (simp add: getRelativePath_def)
  have d: "isTopLevelDirectory d" "BAIN_FOLDER_PATTERN_test d"
    using assms(1,2) bain_folder_topLevel bain_folder_pattern by blast+
  have r: "path_relative cwd d f = join (properSegments (remainder d f)) ''/''"
    using destination_under_folder [OF d assms(3,4)] .
  have "join (remainder d f) ''/'' = drop (length d) f"
    by (simp add: remainder_def join_splitPath)
  then show ?thesis using g r by (auto simp add: properSegments_id)
qed

text \<open>
  A file in a folder \<open>00 Core\<close> nested in the selected BAIN folder \<open>00 Core/\<close>: the
  destination \<open>00 Core/plugin.esp\<close> starts with the basename of the BAIN folder.
\<close>

theorem C6_nested_folder_counterexample:
  "''00 Core/'' \<in> set (getBainFolders [''00 Core/'', ''00 Core/00 Core/plugin.esp''])
   \<and> isFile ''00 Core/00 Core/plugin.esp''
   \<and> startsWith ''00 Core/00 Core/plugin.esp'' ''00 Core/''
   \<and> getRelativePath ''/home/user'' ''00 Core/00 Core/plugin.esp'' [''00 Core/'']
       = Inr ''00 Core/plugin.esp''
   \<and> path_basename ''00 Core/'' = ''00 Core''
   \<and> hd (splitPath ''00 Core/plugin.esp'') = path_basename ''00 Core/''"
  by code_simp

text \<open>
  The amended claim at the file \<open>00 Core/meshes/a.nif\<close> under the selected folder
  \<open>00 Core/\<close>.
\<close>

theorem C6_destination_strips_folder_witness:
  "set [''00 Core/''] \<subseteq> set (getBainFolders scenario_listing)
   \<and> startsWith ''00 Core/meshes/a.nif'' ''00 Core/''
   \<and> remainder ''00 Core/'' ''00 Core/meshes/a.nif'' = [''meshes'', ''a.nif'']
   \<and> getRelativePath ''/home/user'' ''00 Core/meshes/a.nif'' [''00 Core/'']
       = Inr ''meshes/a.nif''"
proof -
  have a: "set [''00 Core/''] \<subseteq> set (getBainFolders scenario_listing)"
    by code_simp
  have b: "startsWith ''00 Core/meshes/a.nif'' ''00 Core/''"
    by code_simp
  have c: "remainder ''00 Core/'' ''00 Core/meshes/a.nif'' = [''meshes'', ''a.nif'']"
    by code_simp
  have d: "''..'' \<notin> set (remainder ''00 Core/'' ''00 Core/meshes/a.nif'')"
    by (simp add: c)
  show ?thesis
    using C6_destination_strips_folder [OF a _ b d, of "''/home/user''"] a b c
    by (simp add: properSegments_def)
qed

lemma find_list_ex:
  "list_ex P xs \<Longrightarrow> \<exists>x. find P xs = Some x"
  by (induction xs) auto

lemma getRelativePath_selected:
  assumes "isFileInSelectedFolder file S"
  shows "\<exists>d. getRelativePath cwd file S = Inr d"
  using find_list_ex [of "\<lambda>folder. startsWith file folder" S] assms
  by (auto simp add: isFileInSelectedFolder_def getRelativePath_def)

lemma mapResult_instructions:
  assumes "list_all (\<lambda>file. isFileInSelectedFolder file S) fs"
  shows "\<exists>ins. mapResult
           (\<lambda>file. case getRelativePath cwd file S of
                      Inl e \<Rightarrow> Inl e
                    | Inr d \<Rightarrow> Inr \<lparr>instr_type = ''copy'', source = file, destination = d\<rparr>)
           fs = Inr ins
         \<and> map source ins = fs
         \<and> list_all (\<lambda>i. instr_type i = ''copy''
                          \<and> getRelativePath cwd (source i) S = Inr (destination i)) ins"
  using assms
proof (induction fs)
  case Nil
  then show ?case by simp
next
  case (Cons x fs)
  obtain d where d: "getRelativePath cwd x S = Inr d"
    using getRelativePath_selected [of x S cwd] Cons.prems by auto
  obtain ins where ins: "mapResult
           (\<lambda>file. case getRelativePath cwd file S of
                      Inl e \<Rightarrow> Inl e
                    | Inr d \<Rightarrow> Inr \<lparr>instr_type = ''copy'', source = file, destination = d\<rparr>)
           fs = Inr ins" "map source ins = fs"
      "list_all (\<lambda>i. instr_type i = ''copy''
                          \<and> getRelativePath cwd (source i) S = Inr (destination i)) ins"
    using Cons by auto
  show ?case
    using d ins by simp
qed

lemma installContent_selected:
  assumes "showFolderSelectionDialog (getBainFolders L) ctx = Inr S"
  shows "\<exists>ins. snd (installContent util cwd L ctx) = Inr (Instructions ins)
         \<and> map source ins = filter (\<lambda>file. isFile file \<and> isFileInSelectedFolder file S) L
         \<and> list_all (\<lambda>i. instr_type i = ''copy''
                          \<and> getRelativePath cwd (source i) S = Inr (destination i)) ins"
proof -
  let ?fs = "filter (\<lambda>file. isFile file \<and> isFileInSelectedFolder file S) L"
  have "list_all (\<lambda>file. isFileInSelectedFolder file S) ?fs"
    by (simp add: list_all_iff)
  then obtain ins where ins: "mapResult
           (\<lambda>file. case getRelativePath cwd file S of
                      Inl e \<Rightarrow> Inl e
                    | Inr d \<Rightarrow> Inr \<lparr>instr_type = ''copy'', source = file, destination = d\<rparr>)
           ?fs = Inr ins" "map source ins = ?fs"
      "list_all (\<lambda>i. instr_type i = ''copy''
                          \<and> getRelativePath cwd (source i) S = Inr (destination i)) ins"
    using mapResult_instructions [of S ?fs cwd] by auto
  have "snd (installContent util cwd L ctx) = Inr (Instructions ins)"
    using assms ins(1) by (simp add: installContent_def Let_def)
  then show ?thesis using ins(2,3) by blast
qed

lemma installContent_aborted:
  assumes "showFolderSelectionDialog (getBainFolders L) ctx = Inl e"
    and "message util e = Inr m"
  shows "installContent util cwd L ctx =
           ([(Debug, Text (''BAIN folders: '' @ join (getBainFolders L) '', '')),
             (Error, Text (''Dialog error: '' @ m))],
            Inr EmptyArray)"
  using assms by (simp add: installContent_def Let_def)

lemma installContent_escapes:
  assumes "showFolderSelectionDialog (getBainFolders L) ctx = Inl e"
    and "message util e = Inl thrown"
  shows "installContent util cwd L ctx =
           ([(Debug, Text (''BAIN folders: '' @ join (getBainFolders L) '', ''))], Inl thrown)"
  using assms by (simp add: installContent_def Let_def)

lemma message_of_object:
  assumes "e \<noteq> JSUndefined" "e \<noteq> JSNull"
  shows "\<exists>m. message util e = Inr m"
  using assms by (cases e) simp_all

lemma destination_unique:
  assumes "set S \<subseteq> set (getBainFolders L)" "d \<in> set S" "startsWith f d"
    and "getRelativePath cwd f S = Inr dest"
  shows "dest = path_relative cwd d f"
proof -
  have "\<forall>d\<in>set S. isTopLevelDirectory d"
    using assms(1) bain_folder_topLevel by blast
  then have "find (\<lambda>folder. startsWith f folder) S = Some d"
    using find_startsWith_unique [of S d f] assms(2,3) by simp
  then show ?thesis using assms(4) by (simp add: getRelativePath_def)
qed

lemma scenario_selection:
  "showFolderSelectionDialog (getBainFolders scenario_listing) (selecting_context [''00 Core/''])
     = Inr [''00 Core/'']"
  by code_simp

lemma scenario_filtered:
  "filter (\<lambda>file. isFile file \<and> isFileInSelectedFolder file [''00 Core/'']) scenario_listing
     = [''00 Core/plugin.esp'']"
  by code_simp

lemma scenario_destination:
  "getRelativePath cwd ''00 Core/plugin.esp'' [''00 Core/''] = Inr ''plugin.esp''"
proof -
  have a: "isTopLevelDirectory ''00 Core/''" "BAIN_FOLDER_PATTERN_test ''00 Core/''"
    "startsWith ''00 Core/plugin.esp'' ''00 Core/''"
    by code_simp+
  have b: "remainder ''00 Core/'' ''00 Core/plugin.esp'' = [''plugin.esp'']"
    by code_simp
  have "path_relative cwd ''00 Core/'' ''00 Core/plugin.esp'' = ''plugin.esp''"
    using destination_under_folder [OF a, of cwd] by (simp add: b properSegments_def)
  then show ?thesis using a(3) by (simp add: getRelativePath_def)
qed

lemma scenario_instructions:
  "snd (installContent util cwd scenario_listing (selecting_context [''00 Core/'']))
     = Inr (Instructions
         [\<lparr>instr_type = ''copy'', source = ''00 Core/plugin.esp'', destination = ''plugin.esp''\<rparr>])"
proof -
  obtain ins where ins:
    "snd (installContent util cwd scenario_listing (selecting_context [''00 Core/'']))
       = Inr (Instructions ins)"
    "map source ins = [''00 Core/plugin.esp'']"
    "list_all (\<lambda>i. instr_type i = ''copy''
        \<and> getRelativePath cwd (source i) [''00 Core/''] = Inr (destination i)) ins"
    using installContent_selected [OF scenario_selection, of util cwd] scenario_filtered by auto
  obtain i where i: "ins = [i]" "source i = ''00 Core/plugin.esp''"
    using ins(2) by auto
  have "instr_type i = ''copy''" "destination i = ''plugin.esp''"
    using ins(3) i scenario_destination [of cwd] by simp_all
  then have "i = \<lparr>instr_type = ''copy'', source = ''00 Core/plugin.esp'',
      destination = ''plugin.esp''\<rparr>"
    using i(2) by (cases i) simp
  then show ?thesis using ins(1) i(1) by simp
qed

text \<open>
  Claim C2. When the dialog step returns a selection of BAIN folders of the listing,
  \<open>installContent\<close> resolves to an instructions list whose sources are exactly the
  entries of the listing that are files and start with a selected folder, in the
  listing's order and one instruction per entry; each instruction is a copy whose
  destination is its source made relative to the selected folder that contains it. For
  the listing of the scenarios with only \<open>00 Core\<close> ticked, the instructions are the
  single copy of \<open>00 Core/plugin.esp\<close> to \<open>plugin.esp\<close>, whatever the working
  directory.
\<close>

theorem C2_installContent_instructions:
  "(showFolderSelectionDialog (getBainFolders L) ctx = Inr S
      \<and> set S \<subseteq> set (getBainFolders L)
    \<longrightarrow> (\<exists>ins. snd (installContent util cwd L ctx) = Inr (Instructions ins)
          \<and> map source ins =
              filter (\<lambda>file. isFile file \<and> (\<exists>d\<in>set S. startsWith file d)) L
          \<and> (\<forall>i\<in>set ins. instr_type i = ''copy''
                \<and> (\<exists>d\<in>set S. startsWith (source i) d)
                \<and> (\<forall>d\<in>set S. startsWith (source i) d
                      \<longrightarrow> destination i = path_relative cwd d (source i)))))
   \<and> snd (installContent util cwd scenario_listing (selecting_context [''00 Core/'']))
       = Inr (Instructions
           [\<lparr>instr_type = ''copy'', source = ''00 Core/plugin.esp'',
             destination = ''plugin.esp''\<rparr>])"
proof (intro conjI impI)
  assume a: "showFolderSelectionDialog (getBainFolders L) ctx = Inr S
      \<and> set S \<subseteq> set (getBainFolders L)"
  obtain ins where ins:
    "snd (installContent util cwd L ctx) = Inr (Instructions ins)"
    "map source ins = filter (\<lambda>file. isFile file \<and> isFileInSelectedFolder file S) L"
    "list_all (\<lambda>i. instr_type i = ''copy''
        \<and> getRelativePath cwd (source i) S = Inr (destination i)) ins"
    using installContent_selected [of L ctx S util cwd] a by auto
  have sel: "isFileInSelectedFolder x S = (\<exists>d\<in>set S. startsWith x d)" for x
    by (simp add: isFileInSelectedFolder_def list_ex_iff)
  have src: "map source ins = filter (\<lambda>file. isFile file \<and> (\<exists>d\<in>set S. startsWith file d)) L"
    using ins(2) by (simp add: sel)
  have each: "instr_type i = ''copy'' \<and> (\<exists>d\<in>set S. startsWith (source i) d)
      \<and> (\<forall>d\<in>set S. startsWith (source i) d
            \<longrightarrow> destination i = path_relative cwd d (source i))" if "i \<in> set ins" for i
  proof -
    have g: "instr_type i = ''copy''" "getRelativePath cwd (source i) S = Inr (destination i)"
      using ins(3) that by (simp_all add: list_all_iff)
    have "source i \<in> set (map source ins)" using that by simp
    then have "\<exists>d\<in>set S. startsWith (source i) d"
      unfolding src by simp
    moreover have "destination i = path_relative cwd d (source i)"
      if "d \<in> set S" "startsWith (source i) d" for d
      using destination_unique [of S L d "source i" cwd "destination i"] a that g(2) by simp
    ultimately show ?thesis using g(1) by blast
  qed
  show "\<exists>ins. snd (installContent util cwd L ctx) = Inr (Instructions ins)
          \<and> map source ins =
              filter (\<lambda>file. isFile file \<and> (\<exists>d\<in>set S. startsWith file d)) L
          \<and> (\<forall>i\<in>set ins. instr_type i = ''copy''
                \<and> (\<exists>d\<in>set S. startsWith (source i) d)
                \<and> (\<forall>d\<in>set S. startsWith (source i) d
                      \<longrightarrow> destination i = path_relative cwd d (source i)))"
    using ins(1) src each by blast
next
  show "snd (installContent util cwd scenario_listing (selecting_context [''00 Core/'']))
       = Inr (Instructions
           [\<lparr>instr_type = ''copy'', source = ''00 Core/plugin.esp'',
             destination = ''plugin.esp''\<rparr>])"
    by (rule scenario_instructions)
qed


text \<open>
  The claim at the listing of the scenarios with both folders ticked.
\<close>

theorem C2_installContent_instructions_witness:
  "showFolderSelectionDialog (getBainFolders scenario_listing)
       (selecting_context [''00 Core/'', ''01 Optional/''])
     = Inr [''00 Core/'', ''01 Optional/'']
   \<and> set [''00 Core/'', ''01 Optional/''] \<subseteq> set (getBainFolders scenario_listing)
   \<and> (\<exists>ins. snd (installContent sample_util ''/home/user'' scenario_listing
                   (selecting_context [''00 Core/'', ''01 Optional/'']))
               = Inr (Instructions ins)
          \<and> map source ins = [''00 Core/plugin.esp'', ''01 Optional/readme.txt'']
          \<and> (\<forall>i\<in>set ins. instr_type i = ''copy''
                \<and> (\<exists>d\<in>set [''00 Core/'', ''01 Optional/'']. startsWith (source i) d)
                \<and> (\<forall>d\<in>set [''00 Core/'', ''01 Optional/'']. startsWith (source i) d
                      \<longrightarrow> destination i = path_relative ''/home/user'' d (source i))))"
proof -
  have a: "showFolderSelectionDialog (getBainFolders scenario_listing)
       (selecting_context [''00 Core/'', ''01 Optional/''])
     = Inr [''00 Core/'', ''01 Optional/'']"
    by code_simp
  have b: "set [''00 Core/'', ''01 Optional/''] \<subseteq> set (getBainFolders scenario_listing)"
    by code_simp
  have c: "filter (\<lambda>file. isFile file
        \<and> (\<exists>d\<in>set [''00 Core/'', ''01 Optional/'']. startsWith file d)) scenario_listing
      = [''00 Core/plugin.esp'', ''01 Optional/readme.txt'']"
    by code_simp
  show ?thesis
    using C2_installContent_instructions [where L = scenario_listing
        and ctx = "selecting_context [''00 Core/'', ''01 Optional/'']"
        and S = "[''00 Core/'', ''01 Optional/'']" and util = sample_util
        and cwd = "''/home/user''"] a b
    unfolding c by blast
qed

lemma showFolderSelectionDialog_resolved:
  assumes "showDialog ctx (dialogRequest bf) = Inr r"
  shows "showFolderSelectionDialog bf ctx =
           (if action r = ''Cancel'' \<or> \<not> list_ex (\<lambda>v. v) (map snd (input r))
            then Inl (UserCanceled ''No folders selected or action canceled.'')
            else Inr (map fst (filter (\<lambda>(key, v). v) (input r))))"
  using assms by (simp add: showFolderSelectionDialog_def)

lemma showFolderSelectionDialog_rejected:
  assumes "showDialog ctx (dialogRequest bf) = Inl e"
  shows "showFolderSelectionDialog bf ctx = Inl e"
  using assms by (simp add: showFolderSelectionDialog_def)

lemma selected_not_empty:
  "list_ex (\<lambda>v. v) (map snd xs) \<Longrightarrow> map fst (filter (\<lambda>(key, v). v) xs) \<noteq> []"
  by (induction xs) auto

lemma showFolderSelectionDialog_selection:
  assumes "showFolderSelectionDialog bf ctx = Inr S"
  shows "\<exists>r. showDialog ctx (dialogRequest bf) = Inr r \<and> action r \<noteq> ''Cancel''
           \<and> S = map fst (filter (\<lambda>(key, v). v) (input r)) \<and> S \<noteq> []"
proof (cases "showDialog ctx (dialogRequest bf)")
  case (Inl e)
  then show ?thesis using assms by (simp add: showFolderSelectionDialog_def)
next
  case (Inr r)
  then show ?thesis
    using assms selected_not_empty [of "input r"]
    by (auto simp add: showFolderSelectionDialog_resolved split: if_splits)
qed

lemma dialog_cancellation:
  assumes "showDialog ctx (dialogRequest bf) = Inr r"
  shows "(\<exists>m. showFolderSelectionDialog bf ctx = Inl (UserCanceled m))
           = (action r = ''Cancel'' \<or> \<not> list_ex (\<lambda>v. v) (map snd (input r)))"
  using assms by (simp add: showFolderSelectionDialog_resolved)

lemma installContent_catches_objects:
  assumes "showFolderSelectionDialog (getBainFolders L) ctx = Inl e"
    and "e \<noteq> JSUndefined" "e \<noteq> JSNull"
  shows "\<exists>m. installContent util cwd L ctx =
           ([(Debug, Text (''BAIN folders: '' @ join (getBainFolders L) '', '')),
             (Error, Text (''Dialog error: '' @ m))],
            Inr EmptyArray)"
  using message_of_object [OF assms(2,3), of util] installContent_aborted [OF assms(1)]
  by blast

text \<open>
  Claim C3, at a host whose dialog rejects with \<open>undefined\<close>. The dialog step fails with
  that value; in the \<open>catch\<close> block of \<open>installContent\<close> the read of its message throws,
  so nothing is logged at error level and \<open>installContent\<close> rejects with a \<open>TypeError\<close>
  instead of resolving to the empty array. (The other parts of the claim hold: the
  cancellation condition of the dialog step, the non-empty selection, and the catch of
  every error that is not \<open>undefined\<close> or \<open>null\<close>, by the lemmas above.)
\<close>

theorem C3_undefined_rejection_escapes:
  "showFolderSelectionDialog (getBainFolders scenario_listing) (rejecting_context JSUndefined)
     = Inl JSUndefined
   \<and> installContent util cwd scenario_listing (rejecting_context JSUndefined)
       = ([(Debug, Text ''BAIN folders: 00 Core/, 01 Optional/'')],
          Inl (TypeError ''Cannot read properties of undefined (reading message)''))"
proof -
  let ?bf = "getBainFolders scenario_listing"
  have a: "showFolderSelectionDialog ?bf (rejecting_context JSUndefined) = Inl JSUndefined"
    by (simp add: showFolderSelectionDialog_def rejecting_context_def)
  have d: "join ?bf '', '' = ''00 Core/, 01 Optional/''"
    by code_simp
  show ?thesis
    using a d installContent_escapes [OF a, of util _ cwd] by simp
qed

lemma checkboxes_length: "length (checkboxes (dialogRequest bf)) = length bf"
  by (simp add: dialogRequest_def)

lemma checkboxes_nth:
  assumes "i < length bf"
  shows "checkboxes (dialogRequest bf) ! i =
           \<lparr>cb_id = bf ! i, cb_text = path_basename (bf ! i), cb_value = (i = 0)\<rparr>"
  using assms by (simp add: dialogRequest_def)

text \<open>
  Claim C8. The request has one checkbox per BAIN folder, in the order of the folders:
  the checkbox at each position has the folder's path as its identifier, the folder's
  basename as its label, and is ticked exactly at position 0. The actions are
  \<open>Cancel\<close> and \<open>Continue\<close>, the latter the default. The dialog step depends on the
  host only through its answer to this request, and a selection it returns is the keys
  of the host's \<open>input\<close> whose value is true, in the host's order.
\<close>

theorem C8_dialog_request:
  "length (checkboxes (dialogRequest bf)) = length bf
   \<and> (\<forall>i<length bf. checkboxes (dialogRequest bf) ! i =
         \<lparr>cb_id = bf ! i, cb_text = path_basename (bf ! i), cb_value = (i = 0)\<rparr>)
   \<and> actions (dialogRequest bf) =
        [\<lparr>label = ''Cancel'', default_action = None\<rparr>,
         \<lparr>label = ''Continue'', default_action = Some True\<rparr>]
   \<and> (showDialog ctx (dialogRequest bf) = showDialog ctx' (dialogRequest bf) \<longrightarrow>
        showFolderSelectionDialog bf ctx = showFolderSelectionDialog bf ctx')
   \<and> (showFolderSelectionDialog bf ctx = Inr S \<longrightarrow>
        (\<exists>r. showDialog ctx (dialogRequest bf) = Inr r
           \<and> S = map fst (filter (\<lambda>(key, v). v) (input r))))"
proof (intro conjI impI allI)
  show "length (checkboxes (dialogRequest bf)) = length bf"
    by (rule checkboxes_length)
next
  fix i assume "i < length bf"
  then show "checkboxes (dialogRequest bf) ! i =
         \<lparr>cb_id = bf ! i, cb_text = path_basename (bf ! i), cb_value = (i = 0)\<rparr>"
    by (rule checkboxes_nth)
next
  show "actions (dialogRequest bf) =
        [\<lparr>label = ''Cancel'', default_action = None\<rparr>,
         \<lparr>label = ''Continue'', default_action = Some True\<rparr>]"
    by (simp add: dialogRequest_def)
next
  assume "showDialog ctx (dialogRequest bf) = showDialog ctx' (dialogRequest bf)"
  then show "showFolderSelectionDialog bf ctx = showFolderSelectionDialog bf ctx'"
    by (simp add: showFolderSelectionDialog_def)
next
  assume "showFolderSelectionDialog bf ctx = Inr S"
  then show "\<exists>r. showDialog ctx (dialogRequest bf) = Inr r
           \<and> S = map fst (filter (\<lambda>(key, v). v) (input r))"
    using showFolderSelectionDialog_selection [of bf ctx S] by blast
qed

text \<open>
  The claim at the folders \<open>00 Core/\<close> and \<open>01 Optional/\<close>, for a user who ticks only
  the second.
\<close>

theorem C8_dialog_request_witness:
  "checkboxes (dialogRequest [''00 Core/'', ''01 Optional/'']) =
     [\<lparr>cb_id = ''00 Core/'', cb_text = ''00 Core'', cb_value = True\<rparr>,
      \<lparr>cb_id = ''01 Optional/'', cb_text = ''01 Optional'', cb_value = False\<rparr>]
   \<and> showFolderSelectionDialog [''00 Core/'', ''01 Optional/'']
         (selecting_context [''01 Optional/''])
       = Inr [''01 Optional/'']
   \<and> (\<exists>r. showDialog (selecting_context [''01 Optional/''])
              (dialogRequest [''00 Core/'', ''01 Optional/'']) = Inr r
          \<and> [''01 Optional/''] = map fst (filter (\<lambda>(key, v). v) (input r)))"
proof -
  let ?bf = "[''00 Core/'', ''01 Optional/'']"
  have l: "length (checkboxes (dialogRequest ?bf)) = 2"
    using C8_dialog_request [of ?bf] by simp
  have n0: "checkboxes (dialogRequest ?bf) ! 0 =
      \<lparr>cb_id = ''00 Core/'', cb_text = path_basename ''00 Core/'', cb_value = True\<rparr>"
    using C8_dialog_request [of ?bf] by simp
  have n1: "checkboxes (dialogRequest ?bf) ! 1 =
      \<lparr>cb_id = ''01 Optional/'', cb_text = path_basename ''01 Optional/'', cb_value = False\<rparr>"
    using C8_dialog_request [of ?bf] by simp
  have b: "path_basename ''00 Core/'' = ''00 Core''" "path_basename ''01 Optional/'' = ''01 Optional''"
    by code_simp+
  have cbs: "checkboxes (dialogRequest ?bf) =
     [\<lparr>cb_id = ''00 Core/'', cb_text = ''00 Core'', cb_value = True\<rparr>,
      \<lparr>cb_id = ''01 Optional/'', cb_text = ''01 Optional'', cb_value = False\<rparr>]"
    using l n0 n1 b by (simp add: list_eq_iff_nth_eq less_Suc_eq numeral_2_eq_2)
  have s: "showFolderSelectionDialog ?bf (selecting_context [''01 Optional/''])
       = Inr [''01 Optional/'']"
    by code_simp
  have "\<exists>r. showDialog (selecting_context [''01 Optional/'']) (dialogRequest ?bf) = Inr r
          \<and> [''01 Optional/''] = map fst (filter (\<lambda>(key, v). v) (input r))"
    using C8_dialog_request [of ?bf "selecting_context [''01 Optional/'']" _ "[''01 Optional/'']"] s
    by simp
  then show ?thesis using cbs s by simp
qed


lemma no_checkboxes_no_input:
  assumes "answersCheckboxes ctx (dialogRequest [])"
    and "showDialog ctx (dialogRequest []) = Inr r"
  shows "input r = []"
  using assms by (cases "input r") (simp_all add: answersCheckboxes_def dialogRequest_def)

text \<open>
  Claim C10. When the listing has no BAIN folder, the request has no checkbox; a host
  whose answer is about the request's checkboxes then resolves with an empty \<open>input\<close>,
  so the dialog step raises the user cancellation whatever the chosen action, and
  \<open>installContent\<close> resolves to the empty array (as it does when the host rejects with
  an error other than \<open>undefined\<close> and \<open>null\<close>).
\<close>

theorem C10_no_bain_folders:
  "getBainFolders L = [] \<and> answersCheckboxes ctx (dialogRequest (getBainFolders L)) \<longrightarrow>
     checkboxes (dialogRequest (getBainFolders L)) = []
     \<and> (\<forall>r. showDialog ctx (dialogRequest (getBainFolders L)) = Inr r \<longrightarrow>
           showFolderSelectionDialog (getBainFolders L) ctx
             = Inl (UserCanceled ''No folders selected or action canceled.''))
     \<and> snd (installContent util cwd L ctx) = Inr EmptyArray"
proof (intro impI)
  assume a: "getBainFolders L = [] \<and> answersCheckboxes ctx (dialogRequest (getBainFolders L))"
  then have e: "getBainFolders L = []"
    by simp
  have h: "answersCheckboxes ctx (dialogRequest [])"
    using a by auto
  have c: "checkboxes (dialogRequest (getBainFolders L)) = []"
    using e by (simp add: dialogRequest_def)
  have u: "showFolderSelectionDialog [] ctx
      = Inl (UserCanceled ''No folders selected or action canceled.'')"
    if "showDialog ctx (dialogRequest []) = Inr r" for r
    using that no_checkboxes_no_input [OF h that]
    by (simp add: showFolderSelectionDialog_resolved)
  have "\<exists>err. showFolderSelectionDialog [] ctx = Inl err
      \<and> err \<noteq> JSUndefined \<and> err \<noteq> JSNull"
  proof (cases "showDialog ctx (dialogRequest [])")
    case (Inl err)
    then show ?thesis
      using h by (simp add: showFolderSelectionDialog_rejected answersCheckboxes_def)
  next
    case (Inr r)
    then show ?thesis using u by simp
  qed
  then obtain err where err: "showFolderSelectionDialog (getBainFolders L) ctx = Inl err"
    "err \<noteq> JSUndefined" "err \<noteq> JSNull"
    using e by auto
  have i: "snd (installContent util cwd L ctx) = Inr EmptyArray"
    using installContent_catches_objects [OF err, of util cwd] by auto
  show "checkboxes (dialogRequest (getBainFolders L)) = []
     \<and> (\<forall>r. showDialog ctx (dialogRequest (getBainFolders L)) = Inr r \<longrightarrow>
           showFolderSelectionDialog (getBainFolders L) ctx
             = Inl (UserCanceled ''No folders selected or action canceled.''))
     \<and> snd (installContent util cwd L ctx) = Inr EmptyArray"
    using c u i e by simp
qed

text \<open>
  The claim at the listing \<open>readme.txt\<close>, \<open>textures/\<close> of the scenarios, for a user who
  continues.
\<close>

theorem C10_no_bain_folders_witness:
  "getBainFolders [''readme.txt'', ''textures/''] = []
   \<and> answersCheckboxes (selecting_context [''textures/''])
        (dialogRequest (getBainFolders [''readme.txt'', ''textures/'']))
   \<and> showDialog (selecting_context [''textures/''])
        (dialogRequest (getBainFolders [''readme.txt'', ''textures/'']))
       = Inr \<lparr>action = ''Continue'', input = []\<rparr>
   \<and> showFolderSelectionDialog (getBainFolders [''readme.txt'', ''textures/''])
        (selecting_context [''textures/''])
       = Inl (UserCanceled ''No folders selected or action canceled.'')
   \<and> snd (installContent sample_util ''/home/user'' [''readme.txt'', ''textures/'']
        (selecting_context [''textures/''])) = Inr EmptyArray"
proof -
  let ?L = "[''readme.txt'', ''textures/'']"
  have a: "getBainFolders ?L = []"
    by code_simp
  have b: "answersCheckboxes (selecting_context [''textures/''])
        (dialogRequest (getBainFolders ?L))"
    by code_simp
  have c: "showDialog (selecting_context [''textures/'']) (dialogRequest (getBainFolders ?L))
       = Inr \<lparr>action = ''Continue'', input = []\<rparr>"
    by code_simp
  show ?thesis
    using C10_no_bain_folders [where L = ?L and ctx = "selecting_context [''textures/'']"
        and util = sample_util and cwd = "''/home/user''"] a b c
    by simp
qed

end
